theory Spec2Isabelle
  imports Main "HOL-Library.AList" "HOL-Library.Char_ord" "HOL-Library.List_Lexorder"
begin

section \<open>Python strings and lists\<close>

text \<open>
  The session class \<open>GameState\<close> of \<open>testing_submission/mcp_server.py\<close> works on Python
  \<open>str\<close> values.  A string is modelled as a \<^typ>\<open>string\<close>, each \<^typ>\<open>char\<close> standing for one
  code point below 256; on that range \<open>str.isspace\<close> and \<open>str.lower\<close> are as written below.
  Python compares strings by code point, which is the lexicographic order of
  \<^typ>\<open>char list\<close>.
\<close>

text \<open>
  What a call can raise.  \<open>IndexError\<close>, \<open>ValueError\<close> and \<open>KeyError\<close> are the raises of
  list indexing, \<open>str.index\<close> and \<open>dict\<close> lookup by a string key.  \<open>EngineError msg\<close> is any
  other exception whose class derives from \<open>Exception\<close>, \<open>BaseException msg\<close> one whose class
  does not (\<open>KeyboardInterrupt\<close>, \<open>SystemExit\<close>), each with its text \<open>str(e)\<close>.
\<close>

datatype exn =
  IndexError | ValueError | KeyError string | EngineError string | BaseException string

text \<open>Whether a clause \<open>except Exception\<close> catches the raise.\<close>

fun is_Exception :: "exn \<Rightarrow> bool" where
  "is_Exception (BaseException msg) = False"
| "is_Exception ex = True"

text \<open>
  \<open>repr(s)\<close> of a string of code points below 256.  The quote is the double quote when
  the string holds a single quote and no double quote, the single quote otherwise; the
  quote and the backslash are escaped by a backslash; tab, newline and carriage return
  are written as a backslash and the letter t, n or r; every other code point that is
  not printable (below 32, 127 to 160, 173) is written as a backslash, the letter x and
  two hexadecimal digits.
\<close>

definition repr_quote :: "string \<Rightarrow> char" where
  "repr_quote s = (if CHR 0x27 \<in> set s \<and> CHR 0x22 \<notin> set s then CHR 0x22 else CHR 0x27)"

definition hex_digit :: "nat \<Rightarrow> char" where
  "hex_digit n = ''0123456789abcdef'' ! (n mod 16)"

definition repr_char :: "char \<Rightarrow> char \<Rightarrow> string" where
  "repr_char q c =
     (let n = (of_char c :: nat)
      in if c = q \<or> c = CHR 0x5C then [CHR 0x5C, c]
         else if n = 9 then [CHR 0x5C, CHR ''t'']
         else if n = 10 then [CHR 0x5C, CHR ''n'']
         else if n = 13 then [CHR 0x5C, CHR ''r'']
         else if n < 32 \<or> (127 \<le> n \<and> n \<le> 160) \<or> n = 173
              then [CHR 0x5C, CHR ''x'', hex_digit (n div 16), hex_digit n]
         else [c])"

definition py_repr :: "string \<Rightarrow> string" where
  "py_repr s = (let q = repr_quote s in [q] @ concat (map (repr_char q) s) @ [q])"

text \<open>
  \<open>str(e)\<close> of a raised exception, as interpolated by the \<open>except\<close> handlers; the text of
  a \<open>KeyError\<close> is the \<open>repr\<close> of its key.
\<close>

fun exn_str :: "exn \<Rightarrow> string" where
  "exn_str IndexError = ''list index out of range''"
| "exn_str ValueError = ''substring not found''"
| "exn_str (KeyError k) = py_repr k"
| "exn_str (EngineError msg) = msg"
| "exn_str (BaseException msg) = msg"

definition is_space :: "char \<Rightarrow> bool" where
  "is_space c = (let n = (of_char c :: nat) in
     (9 \<le> n \<and> n \<le> 13) \<or> (28 \<le> n \<and> n \<le> 32) \<or> n = 133 \<or> n = 160)"

definition is_upper :: "char \<Rightarrow> bool" where
  "is_upper c = (let n = (of_char c :: nat) in
     (65 \<le> n \<and> n \<le> 90) \<or> (192 \<le> n \<and> n \<le> 222 \<and> n \<noteq> 215))"

text \<open>An upper-case code point below 256 is lowered by adding 32, that is by setting bit 5.\<close>

definition lower_char :: "char \<Rightarrow> char" where
  "lower_char c = (if is_upper c
     then (case c of Char b0 b1 b2 b3 b4 b5 b6 b7 \<Rightarrow> Char b0 b1 b2 b3 b4 True b6 b7)
     else c)"

definition lower :: "string \<Rightarrow> string" where
  "lower s = map lower_char s"

text \<open>\<open>s.strip()\<close>: whitespace is removed at both ends of the whole string.\<close>

definition lstrip :: "string \<Rightarrow> string" where
  "lstrip s = dropWhile is_space s"

definition rstrip :: "string \<Rightarrow> string" where
  "rstrip s = rev (dropWhile is_space (rev s))"

definition strip :: "string \<Rightarrow> string" where
  "strip s = rstrip (lstrip s)"

definition startswith :: "string \<Rightarrow> string \<Rightarrow> bool" where
  "startswith w p = (take (length p) w = p)"

text \<open>\<open>s.find(sub)\<close>: the lowest index at which \<open>sub\<close> occurs, if any.\<close>

fun find_sub :: "string \<Rightarrow> string \<Rightarrow> nat option" where
  "find_sub [] sub = (if sub = [] then Some 0 else None)"
| "find_sub (c # cs) sub =
     (if startswith (c # cs) sub then Some 0 else map_option Suc (find_sub cs sub))"

text \<open>\<open>sub in s\<close> and \<open>s.index(sub)\<close>; the latter raises \<open>ValueError\<close> when there is none.\<close>

definition contains :: "string \<Rightarrow> string \<Rightarrow> bool" where
  "contains s sub = (find_sub s sub \<noteq> None)"

definition str_index :: "string \<Rightarrow> string \<Rightarrow> exn + nat" where
  "str_index s sub = (case find_sub s sub of None \<Rightarrow> Inl ValueError | Some i \<Rightarrow> Inr i)"

text \<open>
  \<open>s.split(sep)\<close> for a one-character separator: the result is never empty, and
  \<open>s.split(sep, n)\<close> stops after \<open>n\<close> cuts.
\<close>

fun split :: "char \<Rightarrow> string \<Rightarrow> string list" where
  "split sep [] = [[]]"
| "split sep (c # cs) =
     (if c = sep then [] # split sep cs
      else (case split sep cs of [] \<Rightarrow> [[c]] | x # xs \<Rightarrow> (c # x) # xs))"

fun split_max :: "char \<Rightarrow> nat \<Rightarrow> string \<Rightarrow> string list" where
  "split_max sep 0 s = [s]"
| "split_max sep (Suc n) [] = [[]]"
| "split_max sep (Suc n) (c # cs) =
     (if c = sep then [] # split_max sep n cs
      else (case split_max sep (Suc n) cs of [] \<Rightarrow> [[c]] | x # xs \<Rightarrow> (c # x) # xs))"

text \<open>\<open>xs[i]\<close> for a non-negative index: out of range raises \<open>IndexError\<close>.\<close>

definition getitem :: "'a list \<Rightarrow> nat \<Rightarrow> exn + 'a" where
  "getitem xs i = (if i < length xs then Inr (xs ! i) else Inl IndexError)"

text \<open>\<open>sep.join(xs)\<close>.\<close>

fun join :: "string \<Rightarrow> string list \<Rightarrow> string" where
  "join sep [] = []"
| "join sep [x] = x"
| "join sep (x # y # ys) = x @ sep @ join sep (y # ys)"

text \<open>\<open>xs[-n:]\<close>: the last \<open>n\<close> elements, the whole list when it is shorter.\<close>

definition last_n :: "nat \<Rightarrow> 'a list \<Rightarrow> 'a list" where
  "last_n n xs = drop (length xs - n) xs"

section \<open>The engine and the session\<close>

text \<open>
  One transition of the engine.  The inventory holds, for each item, the text \<open>str(item)\<close>
  that \<open>get_inventory\<close> reads; the field \<open>done\<close> of the source is \<open>is_done\<close> here.
\<close>

record transition =
  observation :: string
  score :: int
  moves :: int
  reward :: int
  is_done :: bool
  inventory :: "string list"

text \<open>
  \<open>TextAdventureEnv\<close> is imported from \<open>games.zork_env\<close>; the session only calls it.  It
  is a parameter of the model: a handle of type \<open>'e\<close> and, for every method the session
  calls, a function from the handle.  A call that changes the engine returns the handle
  afterwards together with what it returned or raised.
\<close>

record ('e, 's) engine =
  env_reset :: "'e \<Rightarrow> 'e \<times> (exn + transition)"
  env_step :: "'e \<Rightarrow> string \<Rightarrow> 'e \<times> (exn + transition)"
  env_get_state :: "'e \<Rightarrow> exn + 's"
  env_set_state :: "'e \<Rightarrow> 's \<Rightarrow> 'e \<times> (exn + unit)"
  env_get_dictionary :: "'e \<Rightarrow> exn + string list"
  env_get_valid_actions :: "'e \<Rightarrow> exn + string list"

text \<open>
  The fields of \<open>GameState\<close>.  \<open>explored_locations\<close> is a \<open>dict\<close> from a location to a
  \<open>set\<close> of edge texts, kept in insertion order; \<open>saved_states\<close> is a \<open>dict\<close> that is
  only looked up and stored into.
\<close>

record ('e, 's) GameState =
  game_name :: string
  env :: 'e
  state :: transition
  history :: "(string \<times> string) list"
  explored_locations :: "(string \<times> string set) list"
  current_location :: string
  saved_states :: "string \<rightharpoonup> 's"

text \<open>\<open>_extract_location\<close>.\<close>

definition extract_location :: "string \<Rightarrow> string" where
  "extract_location observation_text =
     (let lines = split CHR ''\<newline>'' (strip observation_text)
      in (case lines of [] \<Rightarrow> ''Unknown'' | l # _ \<Rightarrow> l))"

text \<open>
  \<open>GameState.__init__\<close>, given the constructed engine handle: a raise of \<open>reset\<close> leaves
  no session.
\<close>

definition new_game :: "('e, 's) engine \<Rightarrow> 'e \<Rightarrow> string \<Rightarrow> exn + ('e, 's) GameState" where
  "new_game E e0 game =
     (case env_reset E e0 of
        (e1, Inl ex) \<Rightarrow> Inl ex
      | (e1, Inr t) \<Rightarrow>
          Inr \<lparr> game_name = game, env = e1, state = t, history = [],
                explored_locations = [],
                current_location = extract_location (observation t),
                saved_states = Map.empty \<rparr>)"

definition movement_actions :: "string list" where
  "movement_actions =
     [''north'', ''south'', ''east'', ''west'', ''up'', ''down'',
      ''enter'', ''exit'', ''n'', ''s'', ''e'', ''w'', ''u'', ''d'']"

text \<open>
  \<open>take_action\<close>.  Every operation of the session returns the session afterwards and
  either the text it returned (\<open>Inr\<close>) or the exception it raised (\<open>Inl\<close>).  The
  statements of the source run in order, so a raise keeps the assignments made before it.
\<close>

definition take_action ::
  "('e, 's) engine \<Rightarrow> ('e, 's) GameState \<Rightarrow> string \<Rightarrow> ('e, 's) GameState \<times> (exn + string)" where
  "take_action E g action =
     (case env_step E (env g) action of
        (e1, Inl ex) \<Rightarrow> (g\<lparr>env := e1\<rparr>, Inl ex)
      | (e1, Inr t) \<Rightarrow>
          (let result = observation t;
               h1 = history g @ [(action, result)];
               h2 = (if length h1 > 50 then last_n 50 h1 else h1);
               g1 = g\<lparr>env := e1, state := t, history := h2\<rparr>;
               new_location = extract_location result;
               cur = current_location g
           in if action \<in> set movement_actions then
                (let m1 = (if map_of (explored_locations g) cur = None
                           then AList.update cur {} (explored_locations g)
                           else explored_locations g)
                 in if new_location \<noteq> cur then
                      (case map_of m1 cur of
                         None \<Rightarrow> (g1\<lparr>explored_locations := m1\<rparr>, Inl (KeyError cur))
                       | Some _ \<Rightarrow>
                           (g1\<lparr>explored_locations :=
                                  AList.map_entry cur
                                    (insert (action @ '' -> '' @ new_location)) m1,
                                current_location := new_location\<rparr>, Inr result))
                    else (g1\<lparr>explored_locations := m1, current_location := new_location\<rparr>,
                          Inr result))
              else (g1\<lparr>current_location := new_location\<rparr>, Inr result)))"

text \<open>The tool \<open>play_action\<close>, which adds the score line and the terminal marker.\<close>

fun digits :: "nat \<Rightarrow> string" where
  "digits n = (if n < 10 then [char_of (48 + n)] else digits (n div 10) @ [char_of (48 + n mod 10)])"

declare digits.simps [simp del]

definition str_int :: "int \<Rightarrow> string" where
  "str_int i = (if i < 0 then CHR ''-'' # digits (nat (- i)) else digits (nat i))"

definition play_action ::
  "('e, 's) engine \<Rightarrow> ('e, 's) GameState \<Rightarrow> string \<Rightarrow> ('e, 's) GameState \<times> (exn + string)" where
  "play_action E g action =
     (case take_action E g action of
        (g1, Inl ex) \<Rightarrow> (g1, Inl ex)
      | (g1, Inr result) \<Rightarrow>
          (let score_info =
                 (if reward (state g1) > 0
                  then ''\<newline>\<newline>+'' @ str_int (reward (state g1)) @ '' points! (Total: ''
                       @ str_int (score (state g1)) @ '')''
                  else ''\<newline>\<newline>[Score: '' @ str_int (score (state g1)) @ '' | Moves: ''
                       @ str_int (moves (state g1)) @ '']'');
               done_info = (if is_done (state g1) then ''\<newline>\<newline>GAME OVER'' else '''')
           in (g1, Inr (result @ score_info @ done_info))))"


text \<open>
  \<open>get_inventory\<close>.  \<open>item_name\<close> is the body of its loop for one item, \<open>item_names\<close>
  the loop.
\<close>

definition item_name :: "string \<Rightarrow> exn + string" where
  "item_name item_str =
     (let item_lower = lower item_str
      in if contains item_lower ''parent'' then
           (case str_index item_lower ''parent'' of
              Inl ex \<Rightarrow> Inl ex
            | Inr idx \<Rightarrow>
                (let name = strip (take idx item_str)
                 in if CHR '':'' \<in> set name
                    then (case getitem (split_max CHR '':'' 1 name) 1 of
                            Inl ex \<Rightarrow> Inl ex
                          | Inr x \<Rightarrow> Inr (strip x))
                    else Inr name))
         else if CHR '':'' \<in> set item_str then
           (case getitem (split CHR '':'' item_str) 1 of
              Inl ex \<Rightarrow> Inl ex
            | Inr x \<Rightarrow> Inr (strip x))
         else Inr item_str)"

fun item_names :: "string list \<Rightarrow> exn + string list" where
  "item_names [] = Inr []"
| "item_names (item # items) =
     (case item_name item of
        Inl ex \<Rightarrow> Inl ex
      | Inr name \<Rightarrow>
          (case item_names items of Inl ex \<Rightarrow> Inl ex | Inr names \<Rightarrow> Inr (name # names)))"

definition get_inventory :: "('e, 's) GameState \<Rightarrow> exn + string" where
  "get_inventory g =
     (let items = inventory (state g)
      in if items = [] then Inr ''Inventory: You are empty-handed.''
         else (case item_names items of
                 Inl ex \<Rightarrow> Inl ex
               | Inr names \<Rightarrow> Inr (''Inventory: '' @ join '', '' names)))"

text \<open>\<open>get_valid_actions\<close>.\<close>

definition get_valid_actions :: "('e, 's) engine \<Rightarrow> ('e, 's) GameState \<Rightarrow> exn + string" where
  "get_valid_actions E g =
     (case env_get_valid_actions E (env g) of
        Inl ex \<Rightarrow>
          (if is_Exception ex then Inr (''Could not retrieve valid actions: '' @ exn_str ex)
           else Inl ex)
      | Inr actions \<Rightarrow>
          (if actions = [] then Inr ''No valid actions available.''
           else Inr (''Valid Actions:\<newline>''
                     @ join ''\<newline>'' (map (\<lambda>action. ''  - '' @ action) actions))))"

text \<open>
  \<open>check_vocabulary\<close>: the clause \<open>except Exception\<close> turns a raise it catches into a
  returned text; a raise it does not catch leaves the call.
\<close>

definition check_vocabulary ::
  "('e, 's) engine \<Rightarrow> ('e, 's) GameState \<Rightarrow> string \<Rightarrow> exn + string" where
  "check_vocabulary E g word =
     (case env_get_dictionary E (env g) of
        Inl ex \<Rightarrow>
          (if is_Exception ex then Inr (''Could not check vocabulary: '' @ exn_str ex)
           else Inl ex)
      | Inr vocab \<Rightarrow>
          (let word_lower = lower word;
               matches = filter (\<lambda>w. startswith w (take 6 word_lower)) vocab
           in if matches \<noteq> []
              then Inr (''Yes, the game understands '' @ [CHR 0x27] @ word @ [CHR 0x27]
                        @ '' (matches: '' @ join '', '' matches @ '').'')
              else Inr (''No, the game does NOT understand the word '' @ [CHR 0x27] @ word
                        @ [CHR 0x27] @ ''. Try a different synonym.'')))"

text \<open>\<open>save_game\<close> and \<open>load_game\<close>.\<close>

definition save_game ::
  "('e, 's) engine \<Rightarrow> ('e, 's) GameState \<Rightarrow> string \<Rightarrow> ('e, 's) GameState \<times> (exn + string)" where
  "save_game E g slot_name =
     (case env_get_state E (env g) of
        Inl ex \<Rightarrow>
          (if is_Exception ex
           then (g, Inr (''Error saving game to slot '' @ [CHR 0x27] @ slot_name @ [CHR 0x27]
                         @ '': '' @ exn_str ex))
           else (g, Inl ex))
      | Inr snap \<Rightarrow>
          (g\<lparr>saved_states := (saved_states g)(slot_name \<mapsto> snap)\<rparr>,
           Inr (''Game saved successfully to slot: '' @ [CHR 0x27] @ slot_name @ [CHR 0x27])))"

definition load_error :: "string \<Rightarrow> exn \<Rightarrow> string" where
  "load_error slot_name ex =
     ''Error loading game from slot '' @ [CHR 0x27] @ slot_name @ [CHR 0x27] @ '': ''
     @ exn_str ex"

definition load_game ::
  "('e, 's) engine \<Rightarrow> ('e, 's) GameState \<Rightarrow> string \<Rightarrow> ('e, 's) GameState \<times> (exn + string)" where
  "load_game E g slot_name =
     (case saved_states g slot_name of
        None \<Rightarrow>
          (g, Inr (''Error: No save found in slot '' @ [CHR 0x27] @ slot_name @ [CHR 0x27]))
      | Some snap \<Rightarrow>
          (case env_set_state E (env g) snap of
             (e1, Inl ex) \<Rightarrow>
               (g\<lparr>env := e1\<rparr>,
                if is_Exception ex then Inr (load_error slot_name ex) else Inl ex)
           | (e1, Inr _) \<Rightarrow>
               (case env_step E e1 ''look'' of
                  (e2, Inl ex) \<Rightarrow>
                    (g\<lparr>env := e2\<rparr>,
                     if is_Exception ex then Inr (load_error slot_name ex) else Inl ex)
                | (e2, Inr t) \<Rightarrow>
                    (g\<lparr>env := e2, state := t,
                       current_location := extract_location (observation t)\<rparr>,
                     Inr (''Game loaded from slot: '' @ [CHR 0x27] @ slot_name @ [CHR 0x27]
                          @ ''.\<newline>Current location: '' @ observation t)))))"

section \<open>Notions the properties are stated with\<close>

text \<open>
  The location as the specification words it: the first line of the observation that is
  not blank, trimmed of surrounding whitespace; there is none when every line is blank.
\<close>

definition is_blank :: "string \<Rightarrow> bool" where
  "is_blank l = (strip l = [])"

definition spec_location :: "string \<Rightarrow> string option" where
  "spec_location observation_text =
     (case filter (\<lambda>l. \<not> is_blank l) (split CHR ''\<newline>'' observation_text) of
        [] \<Rightarrow> None
      | l # _ \<Rightarrow> Some (strip l))"

text \<open>A caller that issues a list of actions one after the other, raised or not.\<close>

fun take_actions ::
  "('e, 's) engine \<Rightarrow> ('e, 's) GameState \<Rightarrow> string list \<Rightarrow> ('e, 's) GameState" where
  "take_actions E g [] = g"
| "take_actions E g (a # as) = take_actions E (fst (take_action E g a)) as"

text \<open>
  What the engine alone answers to a list of actions: the pairs of an action and the
  observation of its step, for the steps that return, and whether every step returns.
\<close>

fun engine_trace :: "('e, 's) engine \<Rightarrow> 'e \<Rightarrow> string list \<Rightarrow> (string \<times> string) list" where
  "engine_trace E e [] = []"
| "engine_trace E e (a # as) =
     (case env_step E e a of
        (e1, Inl ex) \<Rightarrow> engine_trace E e1 as
      | (e1, Inr t) \<Rightarrow> (a, observation t) # engine_trace E e1 as)"

fun all_return :: "('e, 's) engine \<Rightarrow> 'e \<Rightarrow> string list \<Rightarrow> bool" where
  "all_return E e [] = True"
| "all_return E e (a # as) =
     (case env_step E e a of
        (e1, Inl ex) \<Rightarrow> False
      | (e1, Inr t) \<Rightarrow> all_return E e1 as)"

text \<open>The edges recorded under a location; a location that is no key has none.\<close>

definition edges :: "(string \<times> string set) list \<Rightarrow> string \<Rightarrow> string set" where
  "edges d k = (case map_of d k of None \<Rightarrow> {} | Some s \<Rightarrow> s)"

definition ensure_key ::
  "string \<Rightarrow> (string \<times> string set) list \<Rightarrow> (string \<times> string set) list" where
  "ensure_key k d = (if map_of d k = None then AList.update k {} d else d)"

text \<open>The sessions that the operations can produce from a new one.\<close>

inductive reachable :: "('e, 's) engine \<Rightarrow> ('e, 's) GameState \<Rightarrow> bool" for E where
  reachable_new: "new_game E e0 game = Inr g \<Longrightarrow> reachable E g"
| reachable_action: "reachable E g \<Longrightarrow> reachable E (fst (take_action E g a))"
| reachable_save: "reachable E g \<Longrightarrow> reachable E (fst (save_game E g slot_name))"
| reachable_load: "reachable E g \<Longrightarrow> reachable E (fst (load_game E g slot_name))"

section \<open>A small engine to run the session on\<close>

text \<open>
  Two rooms in a row: the handle counts the steps north, \<open>jump\<close> makes the step raise,
  every other action leaves the room.  A snapshot is the handle itself.
\<close>

definition demo_transition :: "nat \<Rightarrow> transition" where
  "demo_transition n =
     \<lparr> observation =
         (if n = 0 then ''West of House\<newline>You are standing in an open field.''
          else ''North of House\<newline>You are facing the north side of a white house.''),
       score = 0, moves = int n, reward = 0, is_done = False, inventory = [] \<rparr>"

definition demo_engine :: "(nat, nat) engine" where
  "demo_engine =
     \<lparr> env_reset = (\<lambda>e. (0, Inr (demo_transition 0))),
       env_step = (\<lambda>e a. if a = ''north'' then (Suc e, Inr (demo_transition (Suc e)))
                          else if a = ''jump'' then (e, Inl (EngineError ''boom''))
                          else (e, Inr (demo_transition e))),
       env_get_state = (\<lambda>e. Inr e),
       env_set_state = (\<lambda>e snap. (snap, Inr ())),
       env_get_dictionary = (\<lambda>e. Inr [''lamp'', ''xyzzy'', ''north'']),
       env_get_valid_actions = (\<lambda>e. Inr [''north'', ''look'']) \<rparr>"

text \<open>The same engine with a dictionary cut to six characters a token.\<close>

definition short_dictionary_engine :: "(nat, nat) engine" where
  "short_dictionary_engine =
     demo_engine\<lparr>env_get_dictionary := (\<lambda>e. Inr [''xyzzy'', ''xyzzyq'', ''north''])\<rparr>"

text \<open>The same engine, except that every step raises.\<close>

definition faulty_engine :: "(nat, nat) engine" where
  "faulty_engine = demo_engine\<lparr>env_step := (\<lambda>e a. (e, Inl (EngineError ''engine crashed'')))\<rparr>"

text \<open>
  The same engine, except that every step is interrupted from the keyboard; the text of
  a \<open>KeyboardInterrupt\<close> is empty.
\<close>

definition interrupted_engine :: "(nat, nat) engine" where
  "interrupted_engine = demo_engine\<lparr>env_step := (\<lambda>e a. (e, Inl (BaseException [])))\<rparr>"

text \<open>The session that \<open>new_game\<close> builds on each of these engines.\<close>

definition demo_start :: "(nat, nat) GameState" where
  "demo_start =
     \<lparr> game_name = ''zork1'', env = 0, state = demo_transition 0, history = [],
       explored_locations = [], current_location = ''West of House'',
       saved_states = Map.empty \<rparr>"

section \<open>Evaluation on concrete inputs\<close>

lemmas str_defs =
  lower_def lower_char_def is_upper_def contains_def str_index_def startswith_def
  strip_def lstrip_def rstrip_def is_space_def getitem_def

lemmas demo_defs =
  demo_engine_def demo_transition_def demo_start_def faulty_engine_def
  short_dictionary_engine_def interrupted_engine_def

lemma py_repr_quotes:
  "py_repr ''West of House'' = [CHR 0x27] @ ''West of House'' @ [CHR 0x27]
   \<and> py_repr [CHR ''i'', CHR ''t'', CHR 0x27, CHR ''s'']
       = [CHR 0x22, CHR ''i'', CHR ''t'', CHR 0x27, CHR ''s'', CHR 0x22]
   \<and> py_repr [CHR ''a'', CHR 0x0A, CHR 0x5C, CHR 0x1B]
       = [CHR 0x27, CHR ''a'', CHR 0x5C, CHR ''n'', CHR 0x5C, CHR 0x5C,
          CHR 0x5C, CHR ''x'', CHR ''1'', CHR ''b'', CHR 0x27]"
  by (simp add: py_repr_def repr_quote_def repr_char_def hex_digit_def Let_def)

lemma demo_new: "new_game demo_engine 0 ''zork1'' = Inr demo_start"
  by (simp add: new_game_def demo_defs extract_location_def str_defs)

lemma faulty_new: "new_game faulty_engine 0 ''zork1'' = Inr demo_start"
  by (simp add: new_game_def demo_defs extract_location_def str_defs)

lemma demo_step_look: "env_step demo_engine e ''look'' = (e, Inr (demo_transition e))"
  by (simp add: demo_engine_def)

lemma demo_step_north: "env_step demo_engine e ''north'' = (Suc e, Inr (demo_transition (Suc e)))"
  by (simp add: demo_engine_def)

lemma demo_all_return_look: "all_return demo_engine e (replicate n ''look'')"
  by (induction n) (simp_all add: demo_step_look)

lemma demo_trace_look:
  "engine_trace demo_engine e (replicate n ''look'')
   = replicate n (''look'', observation (demo_transition e))"
  by (induction n) (simp_all add: demo_step_look)

section \<open>The derived location\<close>

lemma split_not_Nil: "split sep s \<noteq> []"
  by (induction s) (auto split: list.splits)

lemma hd_split: "hd (split sep s) = takeWhile (\<lambda>c. c \<noteq> sep) s"
  by (induction s) (auto split: list.splits simp: split_not_Nil)

lemma extract_location_takeWhile:
  "extract_location obs = takeWhile (\<lambda>c. c \<noteq> CHR ''\<newline>'') (strip obs)"
  using hd_split[of "CHR ''\<newline>''" "strip obs"] split_not_Nil[of "CHR ''\<newline>''" "strip obs"]
  by (auto simp: extract_location_def split: list.splits)

lemma is_space_nl: "is_space CHR ''\<newline>''"
  by (simp add: is_space_def)

lemma rstrip_append_ws:
  assumes "\<forall>c\<in>set t. is_space c"
  shows "rstrip (x @ t) = rstrip x"
proof -
  have "dropWhile is_space (rev t @ rev x) = dropWhile is_space (rev x)"
    by (rule dropWhile_append2) (use assms in auto)
  then show ?thesis by (simp add: rstrip_def)
qed

lemma strip_Cons_ws: "is_space c \<Longrightarrow> strip (c # l) = strip l"
  by (simp add: strip_def lstrip_def)

lemma strip_Nil: "strip [] = []"
  by (simp add: strip_def lstrip_def rstrip_def)

lemma spec_location_Cons:
  "spec_location (c # cs) =
     (if is_space c then spec_location cs
      else Some (strip (takeWhile (\<lambda>x. x \<noteq> CHR ''\<newline>'') (c # cs))))"
proof (cases "c = CHR ''\<newline>''")
  case True
  then show ?thesis
    by (simp add: spec_location_def is_blank_def strip_Nil is_space_nl)
next
  case False
  obtain x xs where sp: "split CHR ''\<newline>'' cs = x # xs"
    using split_not_Nil[of "CHR ''\<newline>''" cs] by (cases "split CHR ''\<newline>'' cs") auto
  have x: "x = takeWhile (\<lambda>x. x \<noteq> CHR ''\<newline>'') cs"
    using hd_split[of "CHR ''\<newline>''" cs] sp by simp
  show ?thesis
  proof (cases "is_space c")
    case True
    with False sp show ?thesis
      by (simp add: spec_location_def is_blank_def strip_Cons_ws)
  next
    case nsp: False
    have "strip (c # x) \<noteq> []"
      using nsp by (simp add: strip_def lstrip_def rstrip_def dropWhile_append)
    with False sp x nsp show ?thesis
      by (simp add: spec_location_def is_blank_def)
  qed
qed

lemma spec_location_lstrip:
  "spec_location s =
     (if lstrip s = [] then None
      else Some (strip (takeWhile (\<lambda>x. x \<noteq> CHR ''\<newline>'') (lstrip s))))"
proof (induction s)
  case Nil
  show ?case by (simp add: spec_location_def is_blank_def strip_Nil lstrip_def)
next
  case (Cons c cs)
  show ?case
    by (simp only: spec_location_Cons Cons.IH) (simp add: lstrip_def)
qed

lemma rstrip_decomp: "\<exists>t. r = rstrip r @ t \<and> (\<forall>c\<in>set t. is_space c)"
proof -
  have "rev r = takeWhile is_space (rev r) @ dropWhile is_space (rev r)" by simp
  then have "r = rev (dropWhile is_space (rev r)) @ rev (takeWhile is_space (rev r))"
    by (metis rev_append rev_rev_ident)
  moreover have "\<forall>c\<in>set (rev (takeWhile is_space (rev r))). is_space c"
    by (auto dest: set_takeWhileD)
  ultimately show ?thesis unfolding rstrip_def by blast
qed

lemma strip_append_ws:
  assumes "\<forall>c\<in>set t. is_space c"
  shows "strip (p @ t) = strip p"
proof (cases "\<forall>c\<in>set p. is_space c")
  case True
  then have "lstrip (p @ t) = []" "lstrip p = []"
    using assms by (auto simp: lstrip_def)
  then show ?thesis by (simp add: strip_def)
next
  case False
  then have "lstrip (p @ t) = lstrip p @ t"
    by (auto simp: lstrip_def dropWhile_append)
  then show ?thesis using assms by (simp add: strip_def rstrip_append_ws)
qed

lemma strip_first_line_rstrip:
  "strip (takeWhile (\<lambda>x. x \<noteq> CHR ''\<newline>'') (rstrip r))
   = strip (takeWhile (\<lambda>x. x \<noteq> CHR ''\<newline>'') r)"
proof -
  obtain t where r: "r = rstrip r @ t" and t: "\<forall>c\<in>set t. is_space c"
    using rstrip_decomp by blast
  let ?p = "rstrip r"
  let ?P = "\<lambda>x. x \<noteq> CHR ''\<newline>''"
  have whole: "takeWhile ?P r = takeWhile ?P (?p @ t)"
    using arg_cong[OF r, of "takeWhile ?P"] .
  show ?thesis
  proof (cases "CHR ''\<newline>'' \<in> set ?p")
    case True
    then have "takeWhile ?P (?p @ t) = takeWhile ?P ?p"
      by (intro takeWhile_append1[of "CHR ''\<newline>''"]) auto
    then show ?thesis by (simp only: whole)
  next
    case False
    then have 1: "takeWhile ?P (?p @ t) = ?p @ takeWhile ?P t"
      by (intro takeWhile_append2) auto
    from False have 2: "takeWhile ?P ?p = ?p"
      by (intro takeWhile_eq_all_conv[THEN iffD2]) auto
    have ws: "\<forall>c\<in>set (takeWhile ?P t). is_space c"
      using t by (auto dest: set_takeWhileD)
    have "strip (takeWhile ?P r) = strip ?p"
      by (simp only: whole 1 strip_append_ws[OF ws])
    then show ?thesis by (simp only: 2)
  qed
qed

lemma strip_hd:
  assumes "strip s = c # cs"
  shows "\<not> is_space c"
proof -
  obtain t where "lstrip s = strip s @ t"
    using rstrip_decomp[of "lstrip s"] by (auto simp: strip_def)
  with assms have "dropWhile is_space s = c # cs @ t"
    by (simp add: lstrip_def)
  then show ?thesis
    using hd_dropWhile[of is_space s] by auto
qed

lemma rstrip_Nil_iff: "rstrip s = [] \<longleftrightarrow> (\<forall>c\<in>set s. is_space c)"
  by (auto simp: rstrip_def dropWhile_eq_Nil_conv)

lemma rstrip_append_keep:
  assumes "rstrip ys \<noteq> []"
  shows "rstrip (xs @ ys) = xs @ rstrip ys"
proof -
  have "\<not> (\<forall>c\<in>set (rev ys). is_space c)"
    using assms by (simp add: rstrip_Nil_iff)
  then have "dropWhile is_space (rev ys @ rev xs) = dropWhile is_space (rev ys) @ rev xs"
    by (auto simp: dropWhile_append)
  then show ?thesis by (simp add: rstrip_def)
qed

lemma not_blank_rstrip:
  assumes "\<not> is_blank s"
  shows "rstrip s \<noteq> []"
proof
  assume "rstrip s = []"
  then have "\<forall>c\<in>set s. is_space c" by (simp add: rstrip_Nil_iff)
  then have "lstrip s = []" by (simp add: lstrip_def)
  then have "strip s = []" by (simp add: strip_def rstrip_def)
  with assms show False by (simp add: is_blank_def)
qed

lemma extract_location_keeps_trailing:
  assumes "l \<noteq> []" and "\<not> is_space (hd l)" and "CHR ''\<newline>'' \<notin> set l" and "\<not> is_blank rest"
  shows "extract_location (l @ CHR ''\<newline>'' # rest) = l"
proof -
  have "lstrip (l @ CHR ''\<newline>'' # rest) = l @ CHR ''\<newline>'' # rest"
    using assms(1,2) by (cases l) (simp_all add: lstrip_def)
  moreover have "rstrip (CHR ''\<newline>'' # rest) = CHR ''\<newline>'' # rstrip rest"
    using rstrip_append_keep[OF not_blank_rstrip[OF assms(4)], of "[CHR ''\<newline>'']"] by simp
  then have "rstrip (l @ CHR ''\<newline>'' # rest) = l @ CHR ''\<newline>'' # rstrip rest"
    using rstrip_append_keep[of "CHR ''\<newline>'' # rest" l] by simp
  ultimately have "strip (l @ CHR ''\<newline>'' # rest) = l @ CHR ''\<newline>'' # rstrip rest"
    by (simp add: strip_def)
  moreover have "takeWhile (\<lambda>c. c \<noteq> CHR ''\<newline>'') (l @ CHR ''\<newline>'' # rstrip rest) = l"
    using assms(3) by (subst takeWhile_append2) auto
  ultimately show ?thesis by (simp add: extract_location_takeWhile)
qed

text \<open>
  C9 (amended).  For every observation text, the derived location is the observation,
  stripped of surrounding whitespace as a whole, up to its first newline.  It carries no
  leading whitespace, and trimming it gives the first non-blank line of the observation
  trimmed of surrounding whitespace.  The trailing whitespace of that line is not removed
  when non-blank text follows it: a first line that starts with a character other than
  whitespace, followed by a newline and text that is not blank, is the derived location
  as it stands.
\<close>

theorem extract_location_first_line:
  "extract_location obs = takeWhile (\<lambda>c. c \<noteq> CHR ''\<newline>'') (strip obs)
   \<and> lstrip (extract_location obs) = extract_location obs
   \<and> (\<forall>l. spec_location obs = Some l \<longrightarrow> strip (extract_location obs) = l)
   \<and> (\<forall>l rest. l \<noteq> [] \<and> \<not> is_space (hd l) \<and> CHR ''\<newline>'' \<notin> set l \<and> \<not> is_blank rest
          \<longrightarrow> extract_location (l @ CHR ''\<newline>'' # rest) = l)"
proof (intro conjI allI impI)
  fix l rest
  assume "l \<noteq> [] \<and> \<not> is_space (hd l) \<and> CHR ''\<newline>'' \<notin> set l \<and> \<not> is_blank rest"
  then show "extract_location (l @ CHR ''\<newline>'' # rest) = l"
    by (simp add: extract_location_keeps_trailing)
next
  show a: "extract_location obs = takeWhile (\<lambda>c. c \<noteq> CHR ''\<newline>'') (strip obs)"
    by (rule extract_location_takeWhile)
  show "lstrip (extract_location obs) = extract_location obs"
  proof (cases "strip obs")
    case Nil
    then show ?thesis by (simp add: a lstrip_def)
  next
    case (Cons c cs)
    then have "\<not> is_space c" by (rule strip_hd)
    moreover from this have "c \<noteq> CHR ''\<newline>''" using is_space_nl by auto
    ultimately show ?thesis using Cons by (simp add: a lstrip_def)
  qed
next
  fix l assume "spec_location obs = Some l"
  then have ne: "lstrip obs \<noteq> []"
    and l: "l = strip (takeWhile (\<lambda>x. x \<noteq> CHR ''\<newline>'') (lstrip obs))"
    by (auto simp: spec_location_lstrip split: if_splits)
  show "strip (extract_location obs) = l"
    by (simp add: extract_location_takeWhile l strip_def[of obs] strip_first_line_rstrip)
qed

theorem extract_location_first_line_witness:
  "spec_location ''West of House  \<newline>You are standing in an open field.''
     = Some ''West of House''
   \<and> strip (extract_location ''West of House  \<newline>You are standing in an open field.'')
     = ''West of House''
   \<and> \<not> is_space (hd ''West of House  '') \<and> CHR ''\<newline>'' \<notin> set ''West of House  ''
   \<and> \<not> is_blank ''You are standing in an open field.''
   \<and> extract_location (''West of House  '' @ CHR ''\<newline>''
         # ''You are standing in an open field.'') = ''West of House  ''
   \<and> extract_location ''  \<newline> West of House\<newline>You are standing in an open field.''
     = ''West of House''"
  using extract_location_first_line
          [of "''West of House  \<newline>You are standing in an open field.''"]
  by (simp add: spec_location_def is_blank_def extract_location_def str_defs)

text \<open>
  C9 as stated fails where the first line ends in whitespace and more text follows: the
  first non-blank line trimmed is \<open>West of House\<close>, the derived location keeps the two
  trailing blanks.
\<close>

theorem extract_location_trailing_counterexample:
  "spec_location ''West of House  \<newline>You are standing in an open field.''
     = Some ''West of House''
   \<and> extract_location ''West of House  \<newline>You are standing in an open field.''
     = ''West of House  ''
   \<and> extract_location ''West of House  \<newline>You are standing in an open field.''
     \<noteq> ''West of House''"
  by (simp add: spec_location_def is_blank_def extract_location_def str_defs)

section \<open>The inventory parser\<close>

text \<open>
  C3 (amended).  For the single item descriptor \<open>lamp:Object#123 parent:room\<close> the
  inventory parser used by \<open>get_inventory\<close> produces the display name \<open>Object#123\<close>:
  the text before \<open>parent\<close> is \<open>lamp:Object#123\<close>, it contains a colon, and the text
  after that colon is kept.
\<close>

theorem item_name_lamp_descriptor:
  "item_name ''lamp:Object#123 parent:room'' = Inr ''Object#123''"
  by (simp add: item_name_def str_defs)

text \<open>
  C3 as stated names \<open>lamp\<close> as the result; the parser does not produce it.
\<close>

theorem item_name_lamp_counterexample:
  "item_name ''lamp:Object#123 parent:room'' \<noteq> Inr ''lamp''"
  by (simp add: item_name_def str_defs)

text \<open>
  C4.  A descriptor without \<open>parent\<close> and with two colons: the branch for a bare colon
  calls \<open>split(":")\<close> with no limit and takes element 1, so it returns the text between
  the first and the second colon, \<open>rusty\<close>, where the text after the first colon is
  \<open>rusty:iron\<close>.  The branch for \<open>parent\<close> in the same loop limits the split to one cut
  and keeps all the text after the first colon.
\<close>

theorem item_name_two_colons:
  "\<not> contains (lower ''key:rusty:iron'') ''parent''
   \<and> item_name ''key:rusty:iron'' = Inr ''rusty''
   \<and> item_name ''key:rusty:iron parent:room'' = Inr ''rusty:iron''"
  by (simp add: item_name_def str_defs)

section \<open>The vocabulary check\<close>

text \<open>
  C5 (amended).  \<open>check_vocabulary("xyzzyqq")\<close>, evaluated against an engine dictionary,
  returns the positive report listing, in dictionary order, the tokens that begin with
  \<open>xyzzyq\<close>, the first six characters of the word, when there is such a token; against a
  dictionary with no token beginning with \<open>xyzzyq\<close> it returns the negative report.
\<close>

theorem check_vocabulary_xyzzyqq:
  assumes "env_get_dictionary E (env g) = Inr vocab"
  shows "check_vocabulary E g ''xyzzyqq'' =
     Inr (if filter (\<lambda>w. take 6 w = ''xyzzyq'') vocab = []
          then ''No, the game does NOT understand the word '' @ [CHR 0x27] @ ''xyzzyqq''
               @ [CHR 0x27] @ ''. Try a different synonym.''
          else ''Yes, the game understands '' @ [CHR 0x27] @ ''xyzzyqq'' @ [CHR 0x27]
               @ '' (matches: '' @ join '', '' (filter (\<lambda>w. take 6 w = ''xyzzyq'') vocab)
               @ '').'')"
proof -
  have len: "length ''xyzzyq'' = 6" by simp
  have sw: "startswith w ''xyzzyq'' = (take 6 w = ''xyzzyq'')" for w
    unfolding startswith_def len ..
  have pre: "take 6 (lower ''xyzzyqq'') = ''xyzzyq''"
    by (simp add: lower_def lower_char_def is_upper_def)
  show ?thesis
    using assms by (simp add: check_vocabulary_def Let_def pre sw)
qed

theorem check_vocabulary_xyzzyqq_witness:
  "env_get_dictionary short_dictionary_engine (env demo_start)
     = Inr [''xyzzy'', ''xyzzyq'', ''north'']
   \<and> check_vocabulary short_dictionary_engine demo_start ''xyzzyqq''
     = Inr (''Yes, the game understands '' @ [CHR 0x27] @ ''xyzzyqq'' @ [CHR 0x27]
            @ '' (matches: xyzzyq).'')"
  using check_vocabulary_xyzzyqq[of short_dictionary_engine demo_start
          "[''xyzzy'', ''xyzzyq'', ''north'']"]
  by (simp add: demo_defs)

text \<open>
  C5 as stated fails on a dictionary that contains \<open>xyzzy\<close>: the token has five
  characters and does not begin with \<open>xyzzyq\<close>, so the report is the negative one.
\<close>

theorem check_vocabulary_xyzzy_counterexample:
  "env_get_dictionary demo_engine (env demo_start) = Inr [''lamp'', ''xyzzy'', ''north'']
   \<and> check_vocabulary demo_engine demo_start ''xyzzyqq''
     = Inr (''No, the game does NOT understand the word '' @ [CHR 0x27] @ ''xyzzyqq''
            @ [CHR 0x27] @ ''. Try a different synonym.'')"
  by (simp add: check_vocabulary_def demo_defs str_defs)

section \<open>The history\<close>

lemma take_action_env: "env (fst (take_action E g a)) = fst (env_step E (env g) a)"
  by (auto simp: take_action_def Let_def split: prod.splits sum.splits option.splits)

lemma take_action_history:
  "history (fst (take_action E g a)) =
     (case snd (env_step E (env g) a) of
        Inl ex \<Rightarrow> history g
      | Inr t \<Rightarrow> last_n 50 (history g @ [(a, observation t)]))"
  by (auto simp: take_action_def Let_def last_n_def split: prod.splits sum.splits option.splits)

lemma last_n_length: "length (last_n n xs) = min (length xs) n"
  by (auto simp: last_n_def)

lemma last_n_append: "last_n n (last_n n xs @ ys) = last_n n (xs @ ys)"
proof -
  have "length xs + length ys - (length xs - n + n) + (length xs - n)
        = length xs + length ys - n"
    by arith
  then show ?thesis by (simp add: last_n_def)
qed

lemma last_n_id: "length xs \<le> n \<Longrightarrow> last_n n xs = xs"
  by (simp add: last_n_def)

lemma take_actions_history:
  "length (history g) \<le> 50 \<Longrightarrow>
   history (take_actions E g acts) = last_n 50 (history g @ engine_trace E (env g) acts)"
proof (induction acts arbitrary: g)
  case Nil
  then show ?case by (simp add: last_n_id)
next
  case (Cons a acts)
  let ?g = "fst (take_action E g a)"
  obtain e1 r where st: "env_step E (env g) a = (e1, r)" by (cases "env_step E (env g) a")
  have len: "length (history ?g) \<le> 50"
    using Cons.prems st by (cases r) (simp_all add: take_action_history last_n_length)
  have env: "env ?g = e1" using st by (simp add: take_action_env)
  show ?case
  proof (cases r)
    case (Inl ex)
    then show ?thesis using Cons.IH[OF len] st env by (simp add: take_action_history)
  next
    case (Inr t)
    then show ?thesis using Cons.IH[OF len] st env
      by (simp add: take_action_history last_n_append)
  qed
qed

lemma all_return_trace: "all_return E e acts \<Longrightarrow> map fst (engine_trace E e acts) = acts"
  by (induction acts arbitrary: e) (auto split: prod.splits sum.splits)

text \<open>
  C1.  On a fresh session, after a list of \<open>take_action\<close> calls the history is the list
  of the (action, result) pairs of the calls that returned, cut to its last 50 entries, in
  the order they were taken.  When each of the \<open>n\<close> calls returned, these are the pairs of
  the most recent \<open>min(n, 50)\<close> actions: the history has exactly \<open>min(n, 50)\<close> entries, and
  the oldest \<open>n - 50\<close> are the ones discarded.
\<close>

theorem history_keeps_last_50:
  assumes "new_game E e0 game = Inr g"
  shows "(let tr = engine_trace E (env g) acts; h = history (take_actions E g acts)
          in h = drop (length tr - 50) tr \<and> length h = min (length tr) 50
             \<and> (all_return E (env g) acts \<longrightarrow>
                  map fst tr = acts \<and> length h = min (length acts) 50
                  \<and> h = drop (length acts - 50) tr))"
proof -
  have "history g = []"
    using assms by (auto simp: new_game_def split: prod.splits sum.splits)
  then have h: "history (take_actions E g acts) = last_n 50 (engine_trace E (env g) acts)"
    using take_actions_history[of g E acts] by simp
  have "length (engine_trace E (env g) acts) = length acts" if "all_return E (env g) acts"
    using all_return_trace[OF that] by (metis length_map)
  then show ?thesis
    using h by (auto simp: Let_def last_n_length all_return_trace) (simp_all add: last_n_def)
qed

theorem history_keeps_last_50_witness:
  "new_game demo_engine 0 ''zork1'' = Inr demo_start
   \<and> all_return demo_engine (env demo_start) (''north'' # replicate 51 ''look'')
   \<and> length (history (take_actions demo_engine demo_start (''north'' # replicate 51 ''look'')))
       = 50
   \<and> history (take_actions demo_engine demo_start (''north'' # replicate 51 ''look''))
       = replicate 50 (''look'', observation (demo_transition 1))"
proof -
  have env: "env demo_start = 0" by (simp add: demo_start_def)
  have ret: "all_return demo_engine (env demo_start) (''north'' # replicate 51 ''look'')"
    unfolding env by (simp add: demo_step_north demo_all_return_look)
  have tr: "engine_trace demo_engine (env demo_start) (''north'' # replicate 51 ''look'')
            = (''north'', observation (demo_transition 1))
              # replicate 51 (''look'', observation (demo_transition 1))"
    unfolding env by (simp add: demo_step_north demo_trace_look)
  have "drop 2 ((''north'', observation (demo_transition 1))
              # replicate 51 (''look'', observation (demo_transition 1)))
        = replicate 50 (''look'', observation (demo_transition 1))"
    by (simp add: numeral_2_eq_2)
  with history_keeps_last_50[OF demo_new, of "''north'' # replicate 51 ''look''"] ret tr demo_new
  show ?thesis by (simp add: Let_def)
qed

section \<open>The exploration graph\<close>

lemma edges_update_new: "map_of d k = None \<Longrightarrow> edges (AList.update k {} d) k' = edges d k'"
  by (simp add: edges_def update_conv')

lemma edges_map_entry:
  "edges (AList.map_entry k (insert x) d) k' =
     (if k' = k \<and> map_of d k \<noteq> None then insert x (edges d k') else edges d k')"
  by (auto simp: edges_def map_of_map_entry split: option.splits)

lemma take_action_raised:
  "take_action E g a = (g', Inl ex) \<Longrightarrow> explored_locations g' = explored_locations g"
  by (auto simp: take_action_def Let_def update_conv' split: prod.splits sum.splits option.splits if_splits)

lemma take_action_location:
  "take_action E g a = (g', Inr r) \<Longrightarrow> current_location g' = extract_location r"
  by (auto simp: take_action_def Let_def split: prod.splits sum.splits option.splits if_splits)

lemma take_action_returned_edges:
  "take_action E g a = (g', Inr r) \<Longrightarrow>
   edges (explored_locations g') k =
     (if a \<in> set movement_actions \<and> extract_location r \<noteq> current_location g
         \<and> k = current_location g
      then insert (a @ '' -> '' @ extract_location r) (edges (explored_locations g) k)
      else edges (explored_locations g) k)"
  unfolding take_action_def Let_def
  by (auto simp: edges_update_new edges_map_entry update_conv'
           split: prod.splits sum.splits option.splits if_splits)

lemma keys_ensure_key: "fst ` set (ensure_key k d) = insert k (fst ` set d)"
  by (auto simp: ensure_key_def dom_update map_of_eq_None_iff)

lemma take_action_explored:
  "take_action E g a = (g', Inr r) \<Longrightarrow>
   explored_locations g' =
     (if a \<in> set movement_actions
      then (if extract_location r \<noteq> current_location g
            then AList.map_entry (current_location g)
                   (insert (a @ '' -> '' @ extract_location r))
                   (ensure_key (current_location g) (explored_locations g))
            else ensure_key (current_location g) (explored_locations g))
      else explored_locations g)"
  unfolding take_action_def Let_def ensure_key_def
  by (auto split: prod.splits sum.splits option.splits if_splits)

lemma take_action_keys:
  "take_action E g a = (g', Inr r) \<Longrightarrow>
   fst ` set (explored_locations g') =
     (if a \<in> set movement_actions
      then insert (current_location g) (fst ` set (explored_locations g))
      else fst ` set (explored_locations g))"
  by (simp add: take_action_explored dom_map_entry keys_ensure_key)



text \<open>
  C2.  A \<open>take_action\<close> that returned puts an edge into the exploration graph exactly
  when the action is one of the movement actions and the derived location after the step
  differs from the location before it: the edge is the one text
  \<open><action> -> <new location>\<close>, added to the set under the prior location.  The edges
  under a location are a set, so an edge that is there already is not added again; an
  action outside the movement actions, and a \<open>take_action\<close> that raised, add nothing.  No
  operation removes a key or an edge: \<open>take_action\<close> only adds, \<open>save_game\<close> and
  \<open>load_game\<close> leave the graph as it is.
\<close>

theorem edge_iff_movement_changes_location:
  assumes "take_action E g a = (g', res)"
  shows "(case res of
            Inl ex \<Rightarrow> explored_locations g' = explored_locations g
          | Inr r \<Rightarrow>
              current_location g' = extract_location r
              \<and> (\<forall>k. edges (explored_locations g') k =
                    (if a \<in> set movement_actions \<and> current_location g' \<noteq> current_location g
                        \<and> k = current_location g
                     then insert (a @ '' -> '' @ current_location g')
                            (edges (explored_locations g) k)
                     else edges (explored_locations g) k)))
     \<and> fst ` set (explored_locations g) \<subseteq> fst ` set (explored_locations g')
     \<and> (\<forall>k. edges (explored_locations g) k \<subseteq> edges (explored_locations g') k)
     \<and> explored_locations (fst (save_game E g slot_name)) = explored_locations g
     \<and> explored_locations (fst (load_game E g slot_name)) = explored_locations g"
proof (cases res)
  case (Inl ex)
  then have "explored_locations g' = explored_locations g"
    using assms take_action_raised by blast
  then show ?thesis using Inl
    by (auto simp: save_game_def load_game_def split: sum.splits option.splits prod.splits)
next
  case (Inr r)
  have loc: "current_location g' = extract_location r"
    using assms Inr take_action_location by blast
  have ed: "edges (explored_locations g') k =
     (if a \<in> set movement_actions \<and> current_location g' \<noteq> current_location g
         \<and> k = current_location g
      then insert (a @ '' -> '' @ current_location g') (edges (explored_locations g) k)
      else edges (explored_locations g) k)" for k
    using take_action_returned_edges[of E g a g' r k] assms Inr by (simp add: loc)
  have keys: "fst ` set (explored_locations g) \<subseteq> fst ` set (explored_locations g')"
    using take_action_keys[of E g a g' r] assms Inr by auto
  have mono: "edges (explored_locations g) k \<subseteq> edges (explored_locations g') k" for k
    by (simp add: ed subset_insertI)
  have sl: "explored_locations (fst (save_game E g slot_name)) = explored_locations g"
    "explored_locations (fst (load_game E g slot_name)) = explored_locations g"
    by (auto simp: save_game_def load_game_def split: sum.splits option.splits prod.splits)
  show ?thesis
    using Inr loc ed keys mono sl by simp
qed

theorem edge_iff_movement_changes_location_witness:
  "snd (take_action demo_engine demo_start ''north'')
     = Inr ''North of House\<newline>You are facing the north side of a white house.''
   \<and> current_location (fst (take_action demo_engine demo_start ''north'')) = ''North of House''
   \<and> edges (explored_locations (fst (take_action demo_engine demo_start ''north'')))
        ''West of House'' = {''north -> North of House''}
   \<and> edges (explored_locations (fst (take_action demo_engine demo_start ''north'')))
        ''North of House'' = {}"
proof -
  let ?g = "fst (take_action demo_engine demo_start ''north'')"
  have mv: "''north'' \<in> set movement_actions" by (simp add: movement_actions_def)
  have res: "snd (take_action demo_engine demo_start ''north'')
       = Inr ''North of House\<newline>You are facing the north side of a white house.''"
    by (simp add: take_action_def Let_def demo_defs movement_actions_def
          extract_location_def str_defs)
  have run: "take_action demo_engine demo_start ''north''
       = (?g, Inr ''North of House\<newline>You are facing the north side of a white house.'')"
    using res by (simp add: prod_eq_iff)
  have new: "extract_location ''North of House\<newline>You are facing the north side of a white house.''
       = ''North of House''"
    by (simp add: extract_location_def str_defs)
  have old: "current_location demo_start = ''West of House''"
    "edges (explored_locations demo_start) k = {}" for k
    by (simp_all add: demo_start_def edges_def)
  from edge_iff_movement_changes_location[OF run, of "''a''"] res
  show ?thesis by (simp add: new old mv)
qed



section \<open>Failures of the engine\<close>

text \<open>
  C6 (amended).  If the engine's step raises during \<open>take_action\<close>, the exception
  propagates to the caller, through the tool \<open>play_action\<close> too, and the session keeps its
  fields.  If the step raises during the synchronizing \<open>look\<close> of \<open>load_game\<close>, after the
  state was restored, an exception of class \<open>Exception\<close> is caught: \<open>load_game\<close> returns
  the text \<open>Error loading game from slot '<slot>': <str(e)>\<close> and the session keeps its
  fields.  Only a raise outside \<open>Exception\<close>, which the clause \<open>except Exception\<close> does
  not catch, propagates from \<open>load_game\<close>.
\<close>

theorem step_failure_raised_or_reported:
  "(env_step E (env g) a = (e1, Inl ex) \<longrightarrow>
      take_action E g a = (g\<lparr>env := e1\<rparr>, Inl ex)
      \<and> play_action E g a = (g\<lparr>env := e1\<rparr>, Inl ex))
   \<and> (saved_states g slot_name = Some snap \<and> env_set_state E (env g) snap = (e1, Inr ())
        \<and> env_step E e1 ''look'' = (e2, Inl ex) \<longrightarrow>
      load_game E g slot_name =
        (g\<lparr>env := e2\<rparr>,
         if is_Exception ex
         then Inr (''Error loading game from slot '' @ [CHR 0x27] @ slot_name @ [CHR 0x27]
                   @ '': '' @ exn_str ex)
         else Inl ex))"
  by (simp add: take_action_def play_action_def load_game_def load_error_def)

theorem step_failure_raised_or_reported_witness:
  "env_step demo_engine (env demo_start) ''jump'' = (0, Inl (EngineError ''boom''))
   \<and> take_action demo_engine demo_start ''jump'' = (demo_start, Inl (EngineError ''boom''))
   \<and> play_action demo_engine demo_start ''jump'' = (demo_start, Inl (EngineError ''boom''))
   \<and> saved_states (fst (save_game faulty_engine demo_start ''a'')) ''a'' = Some 0
   \<and> env_set_state faulty_engine 0 0 = (0, Inr ())
   \<and> env_step faulty_engine 0 ''look'' = (0, Inl (EngineError ''engine crashed''))
   \<and> snd (load_game faulty_engine (fst (save_game faulty_engine demo_start ''a'')) ''a'')
       = Inr (''Error loading game from slot '' @ [CHR 0x27] @ ''a'' @ [CHR 0x27]
              @ '': engine crashed'')
   \<and> saved_states (fst (save_game interrupted_engine demo_start ''a'')) ''a'' = Some 0
   \<and> env_set_state interrupted_engine 0 0 = (0, Inr ())
   \<and> env_step interrupted_engine 0 ''look'' = (0, Inl (BaseException []))
   \<and> snd (load_game interrupted_engine
             (fst (save_game interrupted_engine demo_start ''a'')) ''a'')
       = Inl (BaseException [])"
  using step_failure_raised_or_reported[of demo_engine demo_start "''jump''" 0
          "EngineError ''boom''" "''a''" 0 0]
        step_failure_raised_or_reported[of faulty_engine
          "fst (save_game faulty_engine demo_start ''a'')" "''look''" 0
          "EngineError ''engine crashed''" "''a''" 0 0]
        step_failure_raised_or_reported[of interrupted_engine
          "fst (save_game interrupted_engine demo_start ''a'')" "''look''" 0
          "BaseException []" "''a''" 0 0]
  by (simp add: demo_defs save_game_def)

text \<open>
  C6 as stated fails for \<open>load_game\<close>: on a new session over an engine whose step
  raises, saving to a slot and loading it restores the state, meets the raise of \<open>look\<close>
  and returns the error text; it raises nothing.
\<close>

theorem load_step_failure_counterexample:
  "new_game faulty_engine 0 ''zork1'' = Inr demo_start
   \<and> saved_states (fst (save_game faulty_engine demo_start ''a'')) ''a'' = Some 0
   \<and> env_set_state faulty_engine (env (fst (save_game faulty_engine demo_start ''a''))) 0
       = (0, Inr ())
   \<and> env_step faulty_engine 0 ''look'' = (0, Inl (EngineError ''engine crashed''))
   \<and> snd (load_game faulty_engine (fst (save_game faulty_engine demo_start ''a'')) ''a'')
       = Inr (''Error loading game from slot '' @ [CHR 0x27] @ ''a'' @ [CHR 0x27]
              @ '': engine crashed'')"
  by (simp add: new_game_def extract_location_def str_defs demo_defs save_game_def
        load_game_def load_error_def)

section \<open>Saving and loading\<close>

text \<open>
  C7.  For every slot name that is not in the save-slot store, \<open>load_game\<close> returns the
  text \<open>Error: No save found in slot '<slot>'\<close>, raises nothing, and leaves the whole
  session as it was: the transition, the location, the engine, the history and the
  exploration graph.
\<close>

theorem load_missing_slot:
  assumes "saved_states g slot_name = None"
  shows "load_game E g slot_name =
     (g, Inr (''Error: No save found in slot '' @ [CHR 0x27] @ slot_name @ [CHR 0x27]))"
  using assms by (simp add: load_game_def)

theorem load_missing_slot_witness:
  "saved_states demo_start ''missing'' = None
   \<and> load_game demo_engine demo_start ''missing'' =
       (demo_start, Inr (''Error: No save found in slot '' @ [CHR 0x27] @ ''missing'' @ [CHR 0x27]))"
  using load_missing_slot[of demo_start "''missing''" demo_engine]
  by (simp add: demo_defs)

lemma new_game_synced:
  "new_game E e0 game = Inr g \<Longrightarrow>
   current_location g = extract_location (observation (state g))"
  by (auto simp: new_game_def split: prod.splits sum.splits)

lemma take_action_synced:
  assumes "current_location g = extract_location (observation (state g))"
  shows "current_location (fst (take_action E g a))
         = extract_location (observation (state (fst (take_action E g a))))"
  using assms unfolding take_action_def Let_def
  by (auto simp: update_conv' split: prod.splits sum.splits option.splits)

lemma save_game_synced:
  assumes "current_location g = extract_location (observation (state g))"
  shows "current_location (fst (save_game E g s))
         = extract_location (observation (state (fst (save_game E g s))))"
  using assms by (auto simp: save_game_def split: sum.splits)

lemma load_game_synced:
  assumes "current_location g = extract_location (observation (state g))"
  shows "current_location (fst (load_game E g s))
         = extract_location (observation (state (fst (load_game E g s))))"
  using assms by (auto simp: load_game_def split: prod.splits sum.splits option.splits)

lemma reachable_synced:
  "reachable E g \<Longrightarrow> current_location g = extract_location (observation (state g))"
  by (induction rule: reachable.induct)
     (simp_all add: new_game_synced take_action_synced save_game_synced load_game_synced)

text \<open>
  C8.  For every session that the operations can produce, whose engine gives a snapshot
  and, once that snapshot is restored, answers \<open>look\<close> with the score and the derived
  location of the current transition: \<open>save_game\<close> to a slot and then \<open>load_game\<close> of that
  slot leave \<open>current_location\<close> and the score as they were.
\<close>

theorem save_then_load_round_trip:
  assumes "reachable E g"
    and "env_get_state E (env g) = Inr snap"
    and "\<And>e1 e2 t. env_set_state E (env g) snap = (e1, Inr ()) \<Longrightarrow>
           env_step E e1 ''look'' = (e2, Inr t) \<Longrightarrow>
           score t = score (state g)
           \<and> extract_location (observation t) = extract_location (observation (state g))"
  shows "current_location (fst (load_game E (fst (save_game E g slot_name)) slot_name))
           = current_location g
     \<and> score (state (fst (load_game E (fst (save_game E g slot_name)) slot_name)))
           = score (state g)"
proof -
  have sync: "current_location g = extract_location (observation (state g))"
    using assms(1) by (rule reachable_synced)
  let ?g1 = "g\<lparr>saved_states := (saved_states g)(slot_name \<mapsto> snap)\<rparr>"
  have g1: "fst (save_game E g slot_name) = ?g1"
    using assms(2) by (simp add: save_game_def)
  obtain e1 r1 where set: "env_set_state E (env g) snap = (e1, r1)"
    by (cases "env_set_state E (env g) snap")
  show ?thesis
  proof (cases r1)
    case (Inl ex)
    then show ?thesis using set by (simp add: g1 load_game_def)
  next
    case (Inr u)
    obtain e2 r2 where st: "env_step E e1 ''look'' = (e2, r2)"
      by (cases "env_step E e1 ''look''")
    show ?thesis
    proof (cases r2)
      case (Inl ex)
      then show ?thesis using set Inr st by (simp add: g1 load_game_def)
    next
      case (Inr t)
      then have "score t = score (state g)
           \<and> extract_location (observation t) = extract_location (observation (state g))"
        using assms(3)[of e1 e2 t] set \<open>r1 = Inr u\<close> st by simp
      then show ?thesis using set \<open>r1 = Inr u\<close> st Inr sync by (simp add: g1 load_game_def)
    qed
  qed
qed

theorem save_then_load_round_trip_witness:
  "reachable demo_engine (fst (take_action demo_engine demo_start ''north''))
   \<and> current_location (fst (take_action demo_engine demo_start ''north'')) = ''North of House''
   \<and> current_location (fst (load_game demo_engine
        (fst (save_game demo_engine (fst (take_action demo_engine demo_start ''north'')) ''a''))
        ''a'')) = ''North of House''
   \<and> score (state (fst (load_game demo_engine
        (fst (save_game demo_engine (fst (take_action demo_engine demo_start ''north'')) ''a''))
        ''a''))) = 0"
proof -
  let ?g = "fst (take_action demo_engine demo_start ''north'')"
  have r: "reachable demo_engine ?g"
    by (intro reachable_action reachable_new[OF demo_new])
  have env: "env ?g = 1" and st: "state ?g = demo_transition 1"
    and loc: "current_location ?g = ''North of House''"
    by (simp_all add: take_action_def demo_defs Let_def movement_actions_def
          extract_location_def str_defs)
  have gs: "env_get_state demo_engine (env ?g) = Inr 1"
    unfolding env by (simp add: demo_engine_def)
  have look: "score t = score (state ?g)
           \<and> extract_location (observation t) = extract_location (observation (state ?g))"
    if "env_set_state demo_engine (env ?g) 1 = (e1, Inr ())"
      and "env_step demo_engine e1 ''look'' = (e2, Inr t)" for e1 e2 t
    using that unfolding env st by (auto simp: demo_engine_def demo_transition_def)
  from save_then_load_round_trip[where slot_name = "''a''", OF r gs look] loc r
  show ?thesis by (simp add: st demo_transition_def)
qed

end
